theory Spec2Isabelle
  imports Complex_Main
begin

section \<open>Values of the program\<close>

text \<open>
  The source is \<^verbatim>\<open>src/src/dijkstra.composable.ts\<close>. A vertex identifier is a
  string. A JavaScript number is modelled with its three special values written out;
  a finite double is idealised as a real (no rounding, no overflow to Infinity).
  Names of the source that are reserved words or constants here carry a suffix: the
  fields \<^verbatim>\<open>from\<close>, \<^verbatim>\<open>to\<close> of an edge are \<open>from_id\<close>, \<open>to_id\<close>, the field
  \<^verbatim>\<open>id\<close> of a vertex is \<open>vid\<close>, the ref \<^verbatim>\<open>end\<close> is \<open>end_id\<close> and the function
  \<^verbatim>\<open>next\<close> is \<open>next_step\<close>.
\<close>

type_synonym Id = string

datatype number = NaN | NInf | Fin real | PInf

text \<open>\<^verbatim>\<open>a + b\<close> on numbers: NaN is contagious, opposite infinities give NaN.\<close>

fun num_add :: "number \<Rightarrow> number \<Rightarrow> number" where
  "num_add NaN b = NaN"
| "num_add a NaN = NaN"
| "num_add PInf NInf = NaN"
| "num_add NInf PInf = NaN"
| "num_add PInf b = PInf"
| "num_add a PInf = PInf"
| "num_add NInf b = NInf"
| "num_add a NInf = NInf"
| "num_add (Fin x) (Fin y) = Fin (x + y)"

text \<open>\<^verbatim>\<open>a < b\<close> on numbers: false as soon as one side is NaN.\<close>

fun num_less :: "number \<Rightarrow> number \<Rightarrow> bool" where
  "num_less NaN b = False"
| "num_less a NaN = False"
| "num_less a NInf = False"
| "num_less NInf b = True"
| "num_less PInf b = False"
| "num_less a PInf = True"
| "num_less (Fin x) (Fin y) = (x < y)"

text \<open>\<^verbatim>\<open>a <= b\<close> on numbers.\<close>

definition num_le :: "number \<Rightarrow> number \<Rightarrow> bool" where
  "num_le a b = (a \<noteq> NaN \<and> b \<noteq> NaN \<and> (a = b \<or> num_less a b))"

text \<open>
  The tables \<open>distances\<close> and \<open>previous\<close> are plain objects (\<^verbatim>\<open>{}\<close> in
  \<^verbatim>\<open>initDistances\<close>, an object literal in \<^verbatim>\<open>initDijkstra\<close>). A table is modelled by
  the map of its own properties; what it inherits from \<^verbatim>\<open>Object.prototype\<close> is added
  where the code reads or writes.

  An entry of the distance table: the declared type is \<^verbatim>\<open>Record<Id, number>\<close>, but
  \<^verbatim>\<open>prev\<close> tests entries against \<^verbatim>\<open>null\<close>, so the table can hold \<^verbatim>\<open>null\<close>.
\<close>

datatype entry = Null | Num number

type_synonym Distances = "Id \<rightharpoonup> entry"

text \<open>The names of the members of \<^verbatim>\<open>Object.prototype\<close>; \<^verbatim>\<open>__proto__\<close> is an accessor,
  the others are functions.\<close>

definition prototype_names :: "Id list" where
  "prototype_names =
     [''constructor'', ''__defineGetter__'', ''__defineSetter__'', ''hasOwnProperty'',
      ''__lookupGetter__'', ''__lookupSetter__'', ''isPrototypeOf'', ''propertyIsEnumerable'',
      ''toString'', ''valueOf'', ''__proto__'', ''toLocaleString'']"

text \<open>
  \<^verbatim>\<open>distances[key]\<close> as an expression: the own property if there is one, otherwise
  the inherited member (a function, or the prototype object for \<^verbatim>\<open>__proto__\<close>) if the
  key names one, otherwise \<^verbatim>\<open>undefined\<close>.
\<close>

datatype property = Undefined | Own entry | Inherited

definition get_property :: "Distances \<Rightarrow> Id \<Rightarrow> property" where
  "get_property ds key =
     (case ds key of
        Some e \<Rightarrow> Own e
      | None \<Rightarrow> if key \<in> set prototype_names then Inherited else Undefined)"

text \<open>
  \<^verbatim>\<open>table[key] = value\<close> with a number or a string as value: the assignment creates or
  updates the own property, except at the key \<^verbatim>\<open>__proto__\<close> of a table without such an
  own property, where the inherited setter is called; it ignores a value that is neither
  an object nor \<^verbatim>\<open>null\<close>, so nothing is stored.
\<close>

definition obj_set :: "(Id \<rightharpoonup> 'v) \<Rightarrow> Id \<Rightarrow> 'v \<Rightarrow> (Id \<rightharpoonup> 'v)" where
  "obj_set table key v =
     (if key = ''__proto__'' \<and> table key = None then table else table(key \<mapsto> v))"

text \<open>
  \<^verbatim>\<open>distances[id] ?? Infinity\<close> as an operand of \<^verbatim>\<open><\<close>: \<^verbatim>\<open>undefined\<close> and
  \<^verbatim>\<open>null\<close> are replaced by Infinity; an inherited member is kept, and \<^verbatim>\<open><\<close> converts
  it through its text to NaN.
\<close>

fun nullish_inf :: "property \<Rightarrow> number" where
  "nullish_inf (Own (Num x)) = x"
| "nullish_inf (Own Null) = PInf"
| "nullish_inf Undefined = PInf"
| "nullish_inf Inherited = NaN"

text \<open>
  \<^verbatim>\<open>distances[id]!\<close> as an operand of \<^verbatim>\<open>+\<close> or \<^verbatim>\<open><\<close>: the \<^verbatim>\<open>!\<close> is erased at
  run time and the operator converts, \<^verbatim>\<open>undefined\<close> to NaN and \<^verbatim>\<open>null\<close> to 0. With an
  inherited member as left operand \<^verbatim>\<open>+\<close> gives a string; compared with a number by
  \<^verbatim>\<open><\<close> that string converts to NaN, so the sum is NaN here. The numbers do not
  cover one case: in step 5, when \<^verbatim>\<open>distances[edge.from]\<close> and \<^verbatim>\<open>distances[edge.to]\<close>
  are both inherited members, JavaScript compares two strings. No call of \<^verbatim>\<open>next()\<close>
  leads there: the \<open>from\<close> of every edge it examines is the empty identifier or has a
  distance entry of its own (lemma \<open>examined_edge_origin\<close>).
\<close>

fun to_number :: "property \<Rightarrow> number" where
  "to_number (Own (Num x)) = x"
| "to_number (Own Null) = Fin 0"
| "to_number Undefined = NaN"
| "to_number Inherited = NaN"

section \<open>Data model\<close>

record Edge =
  from_id :: Id
  to_id :: Id
  cost :: number

record Vertice =
  vid :: Id

text \<open>
  \<open>vertices\<close> is the record \<^verbatim>\<open>Record<Id, Vertice>\<close> as the list of its properties in the
  order \<^verbatim>\<open>Object.keys\<close> enumerates them.
\<close>

record Graph =
  vertices :: "(Id \<times> Vertice) list"
  edges :: "Edge list"

definition object_keys :: "(Id \<times> 'a) list \<Rightarrow> Id list" where
  "object_keys r = map fst r"

text \<open>\<open>previous\<close> maps a key to \<open>Some None\<close> when the entry is \<^verbatim>\<open>null\<close>.\<close>

record DijkstraState =
  unvisted :: "Id list"
  distances :: Distances
  previous :: "Id \<rightharpoonup> Id option"
  currentVertex :: "Id option"
  currentEdge :: "Edge option"
  edgesLeft :: "Edge list"
  isDone :: bool

text \<open>\<^verbatim>\<open>initDistances\<close>: the assignments of lines 39 and 41 on the empty object.\<close>

definition initDistances :: "Graph \<Rightarrow> Id \<Rightarrow> Distances" where
  "initDistances g start_v =
     obj_set (fold (\<lambda>i ds. obj_set ds i (Num PInf)) (object_keys (vertices g)) Map.empty)
       start_v (Num (Fin 0))"

text \<open>\<^verbatim>\<open>initDijkstra\<close>. The literal \<^verbatim>\<open>{ [start]: null }\<close> has a computed key, which
  defines an own property whatever the key is.\<close>

definition initDijkstra :: "Graph \<Rightarrow> Id \<Rightarrow> DijkstraState" where
  "initDijkstra g start_v =
     \<lparr> unvisted = object_keys (vertices g),
       distances = initDistances g start_v,
       previous = [start_v \<mapsto> None],
       currentVertex = None,
       currentEdge = None,
       edgesLeft = [],
       isDone = False \<rparr>"

section \<open>The history of snapshots\<close>

text \<open>
  Modelled from the spec: the History Manager. The source obtains it from
  \<^verbatim>\<open>useRefHistory(state, { deep: true, flush: 'sync' })\<close> of the package
  \<^verbatim>\<open>@vueuse/core\<close>, which is not among the source files. After the spec (4.3, 6, 9):
  every transition archives a structural copy of the resulting snapshot on an
  append-only stack whose bottom is the initial snapshot; undo drops the newest copy and
  restores the one below, and does nothing at the bottom. The copy goes through a
  serialization that cannot represent infinity and leaves a null marker in its place
  (JSON writes every non-finite number as \<^verbatim>\<open>null\<close>). Only the distance entries are
  treated so here: the cost of an archived edge is copied as it is.
\<close>

fun dump_entry :: "entry \<Rightarrow> entry" where
  "dump_entry (Num (Fin x)) = Num (Fin x)"
| "dump_entry e = Null"

definition clone :: "DijkstraState \<Rightarrow> DijkstraState" where
  "clone s = s\<lparr> distances := (\<lambda>k. map_option dump_entry (distances s k)) \<rparr>"

text \<open>
  The closure of \<^verbatim>\<open>useDijkstra\<close>: the four refs and the history. The head of
  \<open>history\<close> is the record of the current snapshot, its tail the undo stack.
\<close>

record Dijkstra =
  start :: Id
  end_id :: Id
  graph :: Graph
  state :: DijkstraState
  history :: "DijkstraState list"

definition useDijkstra :: "Graph \<Rightarrow> Id \<Rightarrow> Id \<Rightarrow> Dijkstra" where
  "useDijkstra initGraph initStart initEnd =
     \<lparr> start = initStart,
       end_id = initEnd,
       graph = initGraph,
       state = initDijkstra initGraph initStart,
       history = [clone (initDijkstra initGraph initStart)] \<rparr>"

text \<open>\<^verbatim>\<open>batch(fn)\<close>: run the mutations, then commit one record.\<close>

definition batch :: "(DijkstraState \<Rightarrow> DijkstraState) \<Rightarrow> Dijkstra \<Rightarrow> Dijkstra" where
  "batch f d = d\<lparr> state := f (state d), history := clone (f (state d)) # history d \<rparr>"

text \<open>\<^verbatim>\<open>undo()\<close>: restore the record below the current one, if there is one.\<close>

definition undo :: "Dijkstra \<Rightarrow> Dijkstra" where
  "undo d =
     (case history d of
        cur # below # rest \<Rightarrow> d\<lparr> state := below, history := below # rest \<rparr>
      | _ \<Rightarrow> d)"

section \<open>The step engine\<close>

text \<open>The \<^verbatim>\<open>for\<close> loop of step 2 over the copy of \<open>unvisted\<close>, on the pair
  \<open>(minimal, minimalCost)\<close>.\<close>

fun minimal_loop :: "Distances \<Rightarrow> Id list \<Rightarrow> Id \<times> number \<Rightarrow> Id \<times> number" where
  "minimal_loop ds [] acc = acc"
| "minimal_loop ds (i # ids) (minimal, minimalCost) =
     (if num_less (nullish_inf (get_property ds i)) minimalCost
      then minimal_loop ds ids (i, to_number (get_property ds i))
      else minimal_loop ds ids (minimal, minimalCost))"

text \<open>The \<^verbatim>\<open>map\<close> and \<^verbatim>\<open>filter\<close> that build \<open>connections\<close>.\<close>

definition connections :: "Graph \<Rightarrow> Id \<Rightarrow> Id list \<Rightarrow> Edge list" where
  "connections g minimal unv =
     filter (\<lambda>edge. from_id edge = minimal \<and> to_id edge \<in> set unv)
       (map (\<lambda>edge. if to_id edge = minimal
                     then \<lparr> from_id = minimal, to_id = from_id edge, cost = cost edge \<rparr>
                     else edge)
            (edges g))"

text \<open>
  \<^verbatim>\<open>next()\<close>: the result is the returned boolean and the closure after the call.
  In step 4 the list \<open>edgesLeft\<close> is not empty, since step 3 has returned otherwise
  whenever \<open>currentEdge\<close> is \<^verbatim>\<open>null\<close>; the case of the empty list there is never
  taken.
\<close>

definition next_step :: "Dijkstra \<Rightarrow> bool \<times> Dijkstra" where
  "next_step d =
     (let s = state d in
      if end_id d \<notin> set (unvisted s) then
        (if \<not> isDone s
         then (True, batch (\<lambda>s. s\<lparr> isDone := True, currentVertex := None \<rparr>) d)
         else (True, d))
      else if currentVertex s = None then
        (let unv = unvisted s;
             minimal = fst (minimal_loop (distances s) unv ([], PInf));
             conns = connections (graph d) minimal unv
         in (False, batch (\<lambda>s. s\<lparr> currentVertex := Some minimal,
                                    edgesLeft := conns,
                                    unvisted := filter (\<lambda>u. u \<noteq> minimal) (unvisted s) \<rparr>) d))
      else if edgesLeft s = [] \<and> currentEdge s = None then
        (False, batch (\<lambda>s. s\<lparr> currentVertex := None \<rparr>) d)
      else
        (case currentEdge s of
           None \<Rightarrow>
             (case edgesLeft s of
                target # rest \<Rightarrow>
                  (False, batch (\<lambda>s. s\<lparr> currentEdge := Some target, edgesLeft := rest \<rparr>) d)
              | [] \<Rightarrow> (False, d))
         | Some edge \<Rightarrow>
             (let currentCost = to_number (get_property (distances s) (from_id edge));
                  nextCost = nullish_inf (get_property (distances s) (to_id edge))
              in if num_less (num_add currentCost (cost edge)) nextCost
                 then (False, batch (\<lambda>s. s\<lparr> distances := obj_set (distances s) (to_id edge)
                                                  (Num (num_add currentCost (cost edge))),
                                             previous := obj_set (previous s) (to_id edge)
                                                  (Some (from_id edge)),
                                             currentEdge := None \<rparr>) d)
                 else (False, batch (\<lambda>s. s\<lparr> currentEdge := None \<rparr>) d))))"

text \<open>The \<^verbatim>\<open>keys.forEach\<close> of \<^verbatim>\<open>prev()\<close>: every entry that is \<^verbatim>\<open>null\<close> becomes
  Infinity.\<close>

definition normalize_distances :: "Distances \<Rightarrow> Distances" where
  "normalize_distances ds = (\<lambda>key. if ds key = Some Null then Some (Num PInf) else ds key)"

text \<open>\<^verbatim>\<open>prev()\<close>: undo, then the normalization; between \<^verbatim>\<open>pause()\<close> and
  \<^verbatim>\<open>resume()\<close> nothing is committed.\<close>

definition prev :: "Dijkstra \<Rightarrow> Dijkstra" where
  "prev d =
     (let d' = undo d
      in d'\<lparr> state := (state d')\<lparr> distances := normalize_distances (distances (state d')) \<rparr> \<rparr>)"

text \<open>The closure after \<open>n\<close> calls of \<^verbatim>\<open>next()\<close>.\<close>

definition run :: "nat \<Rightarrow> Dijkstra \<Rightarrow> Dijkstra" where
  "run n d = ((\<lambda>d. snd (next_step d)) ^^ n) d"

section \<open>Derived notions and concrete graphs\<close>

text \<open>The distance recorded for a vertex: the number in its own entry, and Infinity where
  the table records no number (no own entry, or \<^verbatim>\<open>null\<close>).\<close>

fun recorded :: "entry option \<Rightarrow> number" where
  "recorded (Some (Num x)) = x"
| "recorded (Some Null) = PInf"
| "recorded None = PInf"

definition distance_of :: "DijkstraState \<Rightarrow> Id \<Rightarrow> number" where
  "distance_of s v = recorded (distances s v)"

definition no_self_loops :: "Graph \<Rightarrow> bool" where
  "no_self_loops g = (\<forall>e \<in> set (edges g). from_id e \<noteq> to_id e)"

text \<open>The graph of the example scenario, the default graph of \<^verbatim>\<open>src/src/Test.vue\<close>.\<close>

definition example_graph :: Graph where
  "example_graph =
     \<lparr> vertices = [(''A'', \<lparr>vid = ''A''\<rparr>), (''B'', \<lparr>vid = ''B''\<rparr>), (''C'', \<lparr>vid = ''C''\<rparr>),
                   (''D'', \<lparr>vid = ''D''\<rparr>), (''E'', \<lparr>vid = ''E''\<rparr>)],
       edges = [\<lparr>from_id = ''A'', to_id = ''B'', cost = Fin 2\<rparr>,
                \<lparr>from_id = ''A'', to_id = ''C'', cost = Fin 1\<rparr>,
                \<lparr>from_id = ''B'', to_id = ''C'', cost = Fin 3\<rparr>,
                \<lparr>from_id = ''B'', to_id = ''D'', cost = Fin 2\<rparr>,
                \<lparr>from_id = ''C'', to_id = ''D'', cost = Fin 8\<rparr>,
                \<lparr>from_id = ''C'', to_id = ''E'', cost = Fin 3\<rparr>] \<rparr>"

text \<open>Two vertices joined by one edge; two vertices and no edge; one vertex with an edge
  that comes from the empty identifier, which is not a vertex.\<close>

definition two_linked :: Graph where
  "two_linked =
     \<lparr> vertices = [(''A'', \<lparr>vid = ''A''\<rparr>), (''B'', \<lparr>vid = ''B''\<rparr>)],
       edges = [\<lparr>from_id = ''A'', to_id = ''B'', cost = Fin 1\<rparr>] \<rparr>"

definition two_apart :: Graph where
  "two_apart =
     \<lparr> vertices = [(''A'', \<lparr>vid = ''A''\<rparr>), (''B'', \<lparr>vid = ''B''\<rparr>)],
       edges = [] \<rparr>"




definition proto_vertex :: Graph where
  "proto_vertex =
     \<lparr> vertices = [(''__proto__'', \<lparr>vid = ''__proto__''\<rparr>), (''B'', \<lparr>vid = ''B''\<rparr>)],
       edges = [] \<rparr>"

text \<open>
  The choice of the frontier in the words of the specification: \<open>m\<close> is an unvisited
  vertex, no unvisited vertex has a smaller distance, and no vertex before the position of
  \<open>m\<close> in \<open>unvisted\<close> has the same distance.
\<close>

definition first_minimum :: "DijkstraState \<Rightarrow> Id \<Rightarrow> bool" where
  "first_minimum s m =
     (\<exists>i < length (unvisted s). unvisted s ! i = m
        \<and> (\<forall>u \<in> set (unvisted s). \<not> num_less (distance_of s u) (distance_of s m))
        \<and> (\<forall>j < i. distance_of s (unvisted s ! j) \<noteq> distance_of s m))"

text \<open>
  The candidate edges in the words of the specification: an edge whose \<open>to\<close> is the chosen
  vertex is reversed, an edge whose \<open>from\<close> is the chosen vertex is kept, and of these only
  the edges whose far endpoint is unvisited (before the chosen vertex is removed) remain.
\<close>

fun spec_candidate_edges :: "Id \<Rightarrow> Id list \<Rightarrow> Edge list \<Rightarrow> Edge list" where
  "spec_candidate_edges chosen unv [] = []"
| "spec_candidate_edges chosen unv (e # es) =
     (if to_id e = chosen
      then (if from_id e \<in> set unv
            then [\<lparr> from_id = chosen, to_id = from_id e, cost = cost e \<rparr>] else [])
      else if from_id e = chosen
      then (if to_id e \<in> set unv then [e] else [])
      else [])
     @ spec_candidate_edges chosen unv es"

text \<open>Invariants of the states reached by \<^verbatim>\<open>next()\<close>.\<close>

definition phase_inv :: "Dijkstra \<Rightarrow> bool" where
  "phase_inv d =
     ((end_id d \<notin> set (unvisted (state d)) \<longrightarrow> currentEdge (state d) = None)
      \<and> (currentVertex (state d) = None \<longrightarrow> currentEdge (state d) = None)
      \<and> (currentVertex (state d) = None \<and> \<not> isDone (state d) \<longrightarrow> edgesLeft (state d) = []))"

definition no_NaN :: "Dijkstra \<Rightarrow> bool" where
  "no_NaN d = (\<forall>v. distances (state d) v \<noteq> Some (Num NaN))"

definition start_inv :: "Dijkstra \<Rightarrow> bool" where
  "start_inv d =
     (distances (state d) (start d) = Some (Num (Fin 0))
      \<and> previous (state d) (start d) = Some None
      \<and> (if start d \<in> set (unvisted (state d))
         then currentVertex (state d) = None \<and> currentEdge (state d) = None
              \<and> edgesLeft (state d) = []
              \<and> (\<forall>u \<in> set (unvisted (state d)). u \<noteq> start d
                    \<longrightarrow> distance_of (state d) u = PInf)
         else (\<forall>e. currentEdge (state d) = Some e \<longrightarrow> to_id e \<noteq> start d)
              \<and> (\<forall>e \<in> set (edgesLeft (state d)). to_id e \<noteq> start d)))"

text \<open>A search that cannot make progress: the end vertex is unvisited, every unvisited
  vertex is at distance Infinity, the empty identifier is not an unvisited vertex and
  its distance entry is not below Infinity, and the edges in examination start at the
  empty identifier.\<close>

definition stuck :: "Dijkstra \<Rightarrow> bool" where
  "stuck d =
     (end_id d \<in> set (unvisted (state d))
      \<and> (\<forall>u \<in> set (unvisted (state d)). distance_of (state d) u = PInf)
      \<and> [] \<notin> set (unvisted (state d))
      \<and> \<not> num_less (to_number (get_property (distances (state d)) [])) PInf
      \<and> (\<forall>e. currentEdge (state d) = Some e \<longrightarrow> from_id e = [])
      \<and> (currentVertex (state d) \<noteq> None \<longrightarrow> (\<forall>e \<in> set (edgesLeft (state d)). from_id e = [])))"

text \<open>The origin of the edges in examination: the empty identifier, or an identifier with
  a distance entry of its own.\<close>

definition origin_inv :: "Dijkstra \<Rightarrow> bool" where
  "origin_inv d =
     ((\<forall>e. currentEdge (state d) = Some e
          \<longrightarrow> from_id e = [] \<or> distances (state d) (from_id e) \<noteq> None)
      \<and> (\<forall>e \<in> set (edgesLeft (state d)).
            from_id e = [] \<or> distances (state d) (from_id e) \<noteq> None))"

section \<open>General lemmas\<close>

subsection \<open>Runs\<close>

lemma run_0: "run 0 d = d"
  by (simp add: run_def)

lemma run_Suc: "run (Suc n) d = snd (next_step (run n d))"
  by (simp add: run_def)

lemma run_add: "run (m + n) d = run m (run n d)"
  by (simp add: run_def funpow_add)


lemmas unfold_run =
  eval_nat_numeral run_Suc run_0 useDijkstra_def initDijkstra_def initDistances_def
  object_keys_def next_step_def batch_def connections_def Let_def
  obj_set_def get_property_def prototype_names_def

lemma fst_next_step: "fst (next_step d) = (end_id d \<notin> set (unvisted (state d)))"
  by (simp add: next_step_def Let_def split: option.split list.split)

lemma next_step_refs:
  "graph (snd (next_step d)) = graph d"
  "start (snd (next_step d)) = start d"
  "end_id (snd (next_step d)) = end_id d"
  by (simp_all add: next_step_def Let_def batch_def split: option.split list.split)

lemma run_refs:
  "graph (run n d) = graph d"
  "start (run n d) = start d"
  "end_id (run n d) = end_id d"
  by (induction n) (simp_all add: run_0 run_Suc next_step_refs)

lemma unvisted_next_step:
  "set (unvisted (state (snd (next_step d)))) \<subseteq> set (unvisted (state d))"
  by (auto simp add: next_step_def Let_def batch_def split: option.split list.split)

lemma unvisted_run:
  "set (unvisted (state (run (n + k) d))) \<subseteq> set (unvisted (state (run n d)))"
proof (induction k)
  case 0
  show ?case by simp
next
  case (Suc k)
  have "set (unvisted (state (run (Suc (n + k)) d))) \<subseteq> set (unvisted (state (run (n + k) d)))"
    unfolding run_Suc by (rule unvisted_next_step)
  with Suc show ?case by simp
qed

lemma not_done_before:
  assumes "\<not> fst (next_step (run n d))" and "k \<le> n"
  shows "\<not> fst (next_step (run k d))"
proof -
  from assms(2) obtain j where n: "n = k + j"
    using le_Suc_ex by blast
  from assms(1) have "end_id d \<in> set (unvisted (state (run (k + j) d)))"
    by (simp add: fst_next_step run_refs n)
  with unvisted_run [of k j d] have "end_id d \<in> set (unvisted (state (run k d)))"
    by blast
  then show ?thesis by (simp add: fst_next_step run_refs)
qed



subsection \<open>Comparison of numbers\<close>

lemma num_less_irrefl: "\<not> num_less a a"
  by (cases a) simp_all

lemma num_less_trans: "num_less a b \<Longrightarrow> num_less b c \<Longrightarrow> num_less a c"
  by (cases a; cases b; cases c) simp_all

lemma num_less_not_NaN: "num_less a b \<Longrightarrow> a \<noteq> NaN \<and> b \<noteq> NaN"
  by (cases a; cases b) simp_all

lemma num_less_PInf: "\<not> num_less PInf b"
  by (cases b) simp_all

lemma num_less_NaN: "\<not> num_less a NaN"
  by (cases a) simp_all

lemma num_add_not_below:
  "\<not> num_less x PInf \<Longrightarrow> \<not> num_less (num_add x y) z"
  by (cases x; cases y; cases z) simp_all

lemma num_le_trans: "num_le a b \<Longrightarrow> num_le b c \<Longrightarrow> num_le a c"
  unfolding num_le_def using num_less_trans by blast

subsection \<open>Reading and writing a table\<close>

lemma obj_set_apply:
  "obj_set table key v k =
     (if k = key \<and> (key \<noteq> ''__proto__'' \<or> table key \<noteq> None) then Some v else table k)"
  by (auto simp add: obj_set_def)

lemma obj_set_other: "k \<noteq> key \<Longrightarrow> obj_set table key v k = table k"
  by (simp add: obj_set_def)

lemma obj_set_kept: "table k \<noteq> None \<Longrightarrow> obj_set table key v k \<noteq> None"
  by (simp add: obj_set_def)

lemma obj_set_proto: "table ''__proto__'' = None \<Longrightarrow> obj_set table key v ''__proto__'' = None"
  by (simp add: obj_set_def)

text \<open>In the comparison of the scan, the expression read and the recorded distance
  agree.\<close>

lemma reading_less:
  "num_less (nullish_inf (get_property ds i)) c = num_less (recorded (ds i)) c"
  by (cases "ds i" rule: recorded.cases)
     (simp_all add: get_property_def num_less_PInf)

lemma reading_value:
  "num_less (recorded (ds i)) c \<Longrightarrow> to_number (get_property ds i) = recorded (ds i)"
  by (cases "ds i" rule: recorded.cases)
     (simp_all add: get_property_def num_less_PInf)

lemma target_less:
  "num_less c (nullish_inf (get_property ds k)) \<Longrightarrow> num_less c (recorded (ds k))"
  by (cases "ds k" rule: recorded.cases)
     (simp_all add: get_property_def num_less_NaN split: if_splits)

lemma minimal_loop_Cons:
  "minimal_loop ds (i # ids) (m, c) =
     (if num_less (recorded (ds i)) c
      then minimal_loop ds ids (i, recorded (ds i))
      else minimal_loop ds ids (m, c))"
  by (simp add: reading_less reading_value)

declare minimal_loop.simps(2) [simp del]

declare minimal_loop_Cons [simp]

subsection \<open>The phases\<close>

lemma done_step:
  assumes "isDone (state d) \<longrightarrow> end_id d \<notin> set (unvisted (state d))"
  shows "isDone (state (snd (next_step d)))
           \<longrightarrow> end_id (snd (next_step d)) \<notin> set (unvisted (state (snd (next_step d))))"
  using assms unfolding next_step_def Let_def batch_def
  by (auto split: option.splits list.splits)

lemma done_run:
  "isDone (state (run n (useDijkstra g a b)))
     \<longrightarrow> end_id (run n (useDijkstra g a b)) \<notin> set (unvisted (state (run n (useDijkstra g a b))))"
proof (induction n)
  case 0
  show ?case by (simp add: run_0 useDijkstra_def initDijkstra_def)
next
  case (Suc n)
  then show ?case unfolding run_Suc by (rule done_step)
qed


lemma phase_inv_init: "phase_inv (useDijkstra g a b)"
  by (simp add: phase_inv_def useDijkstra_def initDijkstra_def)

lemma phase_inv_step: "phase_inv d \<Longrightarrow> phase_inv (snd (next_step d))"
  unfolding phase_inv_def next_step_def Let_def batch_def
  by (auto split: option.splits list.splits)

lemma phase_inv_run: "phase_inv (run n (useDijkstra g a b))"
  by (induction n) (simp_all add: run_0 run_Suc phase_inv_init phase_inv_step)

text \<open>In a reachable state an edge under examination means that the next call takes the
  relax branch.\<close>

lemma examined_edge_is_relaxed:
  assumes "currentEdge (state (run n (useDijkstra g a b))) = Some e"
  shows "end_id (run n (useDijkstra g a b)) \<in> set (unvisted (state (run n (useDijkstra g a b))))
       \<and> currentVertex (state (run n (useDijkstra g a b))) \<noteq> None"
  using phase_inv_run [of n g a b] assms by (auto simp add: phase_inv_def)

subsection \<open>The distance table\<close>

lemma relax_write:
  assumes "num_less c (nullish_inf (get_property ds k))"
  shows "recorded (obj_set ds k (Num c) v) = recorded (ds v)
         \<or> num_less (recorded (obj_set ds k (Num c) v)) (recorded (ds v))"
  using target_less [OF assms] by (simp add: obj_set_apply)

lemma step_distance:
  "distance_of (state (snd (next_step d))) v = distance_of (state d) v
   \<or> num_less (distance_of (state (snd (next_step d))) v) (distance_of (state d) v)"
  unfolding next_step_def Let_def batch_def distance_of_def
  by (auto split: option.splits list.splits dest: relax_write)

lemma step_distances_kept:
  assumes "currentEdge (state d) = None"
  shows "distances (state (snd (next_step d))) = distances (state d)"
  using assms unfolding next_step_def Let_def batch_def
  by (auto split: option.splits list.splits)

lemma fold_obj_set_apply:
  "m ''__proto__'' = None \<Longrightarrow>
     fold (\<lambda>i ds. obj_set ds i c) ks m v
       = (if v \<in> set ks \<and> v \<noteq> ''__proto__'' then Some c else m v)"
proof (induction ks arbitrary: m)
  case Nil
  show ?case by simp
next
  case (Cons k ks)
  from Cons.prems have "obj_set m k c ''__proto__'' = None"
    by (rule obj_set_proto)
  from Cons.IH [of "obj_set m k c", OF this] Cons.prems show ?case
    by (auto simp add: obj_set_apply)
qed

lemma initDistances_apply:
  "initDistances g a v =
     (if v = ''__proto__'' then None
      else if v = a then Some (Num (Fin 0))
      else if v \<in> set (object_keys (vertices g)) then Some (Num PInf) else None)"
  by (simp add: initDistances_def obj_set_apply fold_obj_set_apply)

lemma no_NaN_init: "no_NaN (useDijkstra g a b)"
  by (simp add: no_NaN_def useDijkstra_def initDijkstra_def initDistances_apply)

lemma no_NaN_step: "no_NaN d \<Longrightarrow> no_NaN (snd (next_step d))"
  unfolding no_NaN_def next_step_def Let_def batch_def
  by (auto simp add: obj_set_apply split: option.splits list.splits dest: num_less_not_NaN)

lemma no_NaN_run: "no_NaN (run n (useDijkstra g a b))"
  by (induction n) (simp_all add: run_0 run_Suc no_NaN_init no_NaN_step)

lemma no_NaN_distance_of: "no_NaN d \<Longrightarrow> distance_of (state d) v \<noteq> NaN"
  unfolding no_NaN_def distance_of_def
  by (cases "distances (state d) v" rule: recorded.cases) auto

text \<open>The table never gets an own property \<^verbatim>\<open>__proto__\<close>.\<close>

lemma no_own_proto_step:
  "distances (state d) ''__proto__'' = None
     \<Longrightarrow> distances (state (snd (next_step d))) ''__proto__'' = None"
  unfolding next_step_def Let_def batch_def
  by (auto simp add: obj_set_apply split: option.splits list.splits)

lemma no_own_proto_run:
  "distances (state (run n (useDijkstra g a b))) ''__proto__'' = None"
proof (induction n)
  case 0
  show ?case by (simp add: run_0 useDijkstra_def initDijkstra_def initDistances_apply)
next
  case (Suc n)
  then show ?case unfolding run_Suc by (rule no_own_proto_step)
qed

subsection \<open>The scan for the minimum and the candidate edges\<close>

lemma minimal_loop_keep:
  "(\<forall>u \<in> set xs. \<not> num_less (recorded (ds u)) c) \<Longrightarrow> minimal_loop ds xs (m, c) = (m, c)"
  by (induction xs) simp_all

lemma minimal_loop_start:
  assumes "a \<in> set xs" and "ds a = Some (Num (Fin 0))"
    and "\<forall>u \<in> set xs. u \<noteq> a \<longrightarrow> recorded (ds u) = PInf"
  shows "fst (minimal_loop ds xs (m, PInf)) = a"
  using assms
proof (induction xs)
  case Nil
  then show ?case by simp
next
  case (Cons x xs)
  show ?case
  proof (cases "x = a")
    case True
    have "\<forall>u \<in> set xs. \<not> num_less (recorded (ds u)) (Fin 0)"
    proof
      fix u assume "u \<in> set xs"
      with Cons.prems have "recorded (ds u) = PInf \<or> recorded (ds u) = Fin 0"
        by (cases "u = a") auto
      then show "\<not> num_less (recorded (ds u)) (Fin 0)" by auto
    qed
    then have "minimal_loop ds xs (a, Fin 0) = (a, Fin 0)"
      by (rule minimal_loop_keep)
    with True Cons.prems(2) show ?thesis by simp
  next
    case False
    with Cons.prems have "recorded (ds x) = PInf" and "a \<in> set xs" by auto
    with Cons show ?thesis by simp
  qed
qed

lemma connections_member:
  assumes "e \<in> set (connections g m unv)"
  shows "from_id e = m" and "to_id e \<in> set unv"
  using assms by (auto simp add: connections_def)

lemma connections_no_loop:
  assumes "e \<in> set (connections g m unv)" and "no_self_loops g"
  shows "to_id e \<noteq> m"
proof -
  from assms(1) obtain x where x: "x \<in> set (edges g)"
    and e: "e = (if to_id x = m then \<lparr> from_id = m, to_id = from_id x, cost = cost x \<rparr> else x)"
    by (auto simp add: connections_def)
  from x assms(2) have "from_id x \<noteq> to_id x"
    by (simp add: no_self_loops_def)
  with e show ?thesis by (cases "to_id x = m") auto
qed

subsection \<open>The entries of the start vertex\<close>

lemma start_inv_init: "a \<noteq> ''__proto__'' \<Longrightarrow> start_inv (useDijkstra g a b)"
  by (simp add: start_inv_def useDijkstra_def initDijkstra_def initDistances_apply
        distance_of_def)

lemma start_inv_step:
  assumes inv: "start_inv d" and loops: "no_self_loops (graph d)"
  shows "start_inv (snd (next_step d))"
proof (cases "start d \<in> set (unvisted (state d))")
  case True
  with inv have pick:
    "fst (minimal_loop (distances (state d)) (unvisted (state d)) ([], PInf)) = start d"
    by (intro minimal_loop_start) (auto simp add: start_inv_def distance_of_def)
  from inv True loops show ?thesis
    unfolding start_inv_def next_step_def Let_def batch_def pick
    by (auto simp add: distance_of_def split: option.splits list.splits
             dest: connections_no_loop)
next
  case False
  with inv show ?thesis
    unfolding start_inv_def next_step_def Let_def batch_def
    by (auto simp add: obj_set_other split: option.splits list.splits dest: connections_member)
qed

lemma start_inv_run:
  "no_self_loops g \<Longrightarrow> a \<noteq> ''__proto__'' \<Longrightarrow> start_inv (run n (useDijkstra g a b))"
proof (induction n)
  case 0
  then show ?case by (simp add: run_0 start_inv_init)
next
  case (Suc n)
  have "graph (run n (useDijkstra g a b)) = g"
    by (simp add: run_refs useDijkstra_def)
  with Suc show ?case by (simp add: run_Suc start_inv_step)
qed

text \<open>For a start vertex other than \<^verbatim>\<open>__proto__\<close>, in a graph without self-loops, the
  entries of the start vertex stay as \<^verbatim>\<open>initDijkstra\<close> sets them.\<close>

lemma start_entries_ordinary:
  assumes "no_self_loops g" and "a \<noteq> ''__proto__''"
  shows "distances (state (run n (useDijkstra g a b))) a = Some (Num (Fin 0))
       \<and> previous (state (run n (useDijkstra g a b))) a = Some None"
proof -
  have "start (run n (useDijkstra g a b)) = a"
    by (simp add: run_refs useDijkstra_def)
  with start_inv_run [OF assms, of n b] show ?thesis
    by (simp add: start_inv_def)
qed

lemma minimal_loop_first:
  assumes "\<exists>u \<in> set xs. num_less (recorded (ds u)) c0"
  shows "\<exists>i < length xs.
           minimal_loop ds xs (m0, c0) = (xs ! i, recorded (ds (xs ! i)))
           \<and> num_less (recorded (ds (xs ! i))) c0
           \<and> (\<forall>j < i. recorded (ds (xs ! j)) \<noteq> recorded (ds (xs ! i)))
           \<and> (\<forall>u \<in> set xs. \<not> num_less (recorded (ds u)) (recorded (ds (xs ! i))))"
  using assms
proof (induction xs arbitrary: m0 c0)
  case Nil
  then show ?case by simp
next
  case (Cons x xs)
  let ?D = "\<lambda>u. recorded (ds u)"
  show ?case
  proof (cases "num_less (?D x) c0")
    case better: True
    then have unroll: "minimal_loop ds (x # xs) (m0, c0) = minimal_loop ds xs (x, ?D x)"
      by simp
    show ?thesis
    proof (cases "\<exists>u \<in> set xs. num_less (?D u) (?D x)")
      case True
      from Cons.IH [OF this, of x] obtain i where i: "i < length xs"
        and res: "minimal_loop ds xs (x, ?D x) = (xs ! i, ?D (xs ! i))"
        and lt: "num_less (?D (xs ! i)) (?D x)"
        and first: "\<forall>j < i. ?D (xs ! j) \<noteq> ?D (xs ! i)"
        and least: "\<forall>u \<in> set xs. \<not> num_less (?D u) (?D (xs ! i))"
        by blast
      from lt have x_differs: "?D x \<noteq> ?D (xs ! i)"
        using num_less_irrefl by auto
      from lt have x_not_less: "\<not> num_less (?D x) (?D (xs ! i))"
        using num_less_trans num_less_irrefl by blast
      from lt better have below: "num_less (?D (xs ! i)) c0"
        by (rule num_less_trans)
      have first': "\<forall>j < Suc i. ?D ((x # xs) ! j) \<noteq> ?D (xs ! i)"
        using first x_differs by (auto simp add: less_Suc_eq_0_disj)
      from i res below first' least x_not_less unroll
      show ?thesis by (intro exI [of _ "Suc i"]) simp
    next
      case False
      then have "minimal_loop ds xs (x, ?D x) = (x, ?D x)"
        by (intro minimal_loop_keep) simp
      with unroll better False show ?thesis
        by (intro exI [of _ 0]) (auto simp add: num_less_irrefl)
    qed
  next
    case worse: False
    then have unroll: "minimal_loop ds (x # xs) (m0, c0) = minimal_loop ds xs (m0, c0)"
      by simp
    from worse Cons.prems have "\<exists>u \<in> set xs. num_less (?D u) c0" by auto
    from Cons.IH [OF this, of m0] obtain i where i: "i < length xs"
      and res: "minimal_loop ds xs (m0, c0) = (xs ! i, ?D (xs ! i))"
      and lt: "num_less (?D (xs ! i)) c0"
      and first: "\<forall>j < i. ?D (xs ! j) \<noteq> ?D (xs ! i)"
      and least: "\<forall>u \<in> set xs. \<not> num_less (?D u) (?D (xs ! i))"
      by blast
    from lt worse have x_differs: "?D x \<noteq> ?D (xs ! i)" by auto
    from lt worse have x_not_less: "\<not> num_less (?D x) (?D (xs ! i))"
      using num_less_trans by blast
    have first': "\<forall>j < Suc i. ?D ((x # xs) ! j) \<noteq> ?D (xs ! i)"
      using first x_differs by (auto simp add: less_Suc_eq_0_disj)
    from i res lt first' least x_not_less unroll
    show ?thesis by (intro exI [of _ "Suc i"]) simp
  qed
qed

lemma connections_spec:
  "connections g m unv = spec_candidate_edges m unv (edges g)"
proof -
  have "filter (\<lambda>edge. from_id edge = m \<and> to_id edge \<in> set unv)
          (map (\<lambda>edge. if to_id edge = m
                        then \<lparr> from_id = m, to_id = from_id edge, cost = cost edge \<rparr>
                        else edge) es)
        = spec_candidate_edges m unv es" for es
    by (induction es) simp_all
  then show ?thesis by (simp add: connections_def)
qed

text \<open>The origin of the edges in examination.\<close>

lemma minimal_loop_origin:
  assumes "m0 = [] \<or> ds m0 \<noteq> None"
  shows "fst (minimal_loop ds xs (m0, c0)) = []
         \<or> ds (fst (minimal_loop ds xs (m0, c0))) \<noteq> None"
  using assms
proof (induction xs arbitrary: m0 c0)
  case Nil
  then show ?case by simp
next
  case (Cons x xs)
  show ?case
  proof (cases "num_less (recorded (ds x)) c0")
    case True
    then have "ds x \<noteq> None"
      by (cases "ds x") (simp_all add: num_less_PInf)
    then have "x = [] \<or> ds x \<noteq> None" by simp
    from Cons.IH [OF this] True show ?thesis by simp
  next
    case False
    with Cons.IH [OF Cons.prems] show ?thesis by simp
  qed
qed

lemma origin_inv_init: "origin_inv (useDijkstra g a b)"
  by (simp add: origin_inv_def useDijkstra_def initDijkstra_def)

lemma origin_inv_step:
  assumes "origin_inv d"
  shows "origin_inv (snd (next_step d))"
proof -
  have pick: "fst (minimal_loop (distances (state d)) (unvisted (state d)) ([], PInf)) = []
        \<or> distances (state d)
             (fst (minimal_loop (distances (state d)) (unvisted (state d)) ([], PInf))) \<noteq> None"
    by (rule minimal_loop_origin) simp
  from assms pick show ?thesis
    unfolding origin_inv_def next_step_def Let_def batch_def
    by (auto simp add: obj_set_kept split: option.splits list.splits
             dest!: connections_member(1))
qed

lemma origin_inv_run: "origin_inv (run n (useDijkstra g a b))"
  by (induction n) (simp_all add: run_0 run_Suc origin_inv_init origin_inv_step)

lemma examined_edge_origin:
  assumes "currentEdge (state (run n (useDijkstra g a b))) = Some e"
  shows "get_property (distances (state (run n (useDijkstra g a b)))) (from_id e) \<noteq> Inherited"
proof -
  from origin_inv_run [of n g a b] assms
  have "from_id e = [] \<or> distances (state (run n (useDijkstra g a b))) (from_id e) \<noteq> None"
    by (simp add: origin_inv_def)
  moreover have "[] \<notin> set prototype_names"
    by (simp add: prototype_names_def)
  ultimately show ?thesis
    by (cases "distances (state (run n (useDijkstra g a b))) (from_id e)")
       (auto simp add: get_property_def)
qed

subsection \<open>A search without progress\<close>

lemma minimal_loop_fallback:
  assumes "\<forall>u \<in> set (unvisted s). distance_of s u = PInf"
  shows "minimal_loop (distances s) (unvisted s) ([], PInf) = ([], PInf)"
  using assms by (intro minimal_loop_keep) (simp add: distance_of_def)

lemma filter_nameless: "[] \<notin> set xs \<Longrightarrow> filter (\<lambda>u. u \<noteq> []) xs = xs"
  by (induction xs) auto

lemma stuck_step:
  assumes "stuck d"
  shows "stuck (snd (next_step d))" and "\<not> fst (next_step d)"
proof -
  let ?s = "state d"
  from assms have unvisited: "end_id d \<in> set (unvisted ?s)"
    and far: "\<forall>u \<in> set (unvisted ?s). distance_of ?s u = PInf"
    and nameless: "[] \<notin> set (unvisted ?s)"
    and origin: "\<not> num_less (to_number (get_property (distances ?s) [])) PInf"
    and examined: "\<forall>e. currentEdge ?s = Some e \<longrightarrow> from_id e = []"
    and waiting: "currentVertex ?s \<noteq> None \<longrightarrow> (\<forall>e \<in> set (edgesLeft ?s). from_id e = [])"
    by (simp_all add: stuck_def)
  from far have scan: "minimal_loop (distances ?s) (unvisted ?s) ([], PInf) = ([], PInf)"
    by (rule minimal_loop_fallback)
  from nameless have keep: "filter (\<lambda>u. u \<noteq> []) (unvisted ?s) = unvisted ?s"
    by (rule filter_nameless)
  from origin have no_relax:
    "\<not> num_less (num_add (to_number (get_property (distances ?s) [])) y) z" for y z
    by (rule num_add_not_below)
  from unvisited show "\<not> fst (next_step d)"
    by (simp add: fst_next_step)
  show "stuck (snd (next_step d))"
  proof (cases "currentVertex ?s")
    case None
    with unvisited have
      "next_step d =
         (False, batch (\<lambda>s. s\<lparr> currentVertex := Some [],
                                edgesLeft := connections (graph d) [] (unvisted ?s),
                                unvisted := filter (\<lambda>u. u \<noteq> []) (unvisted s) \<rparr>) d)"
      by (simp add: next_step_def Let_def scan)
    with unvisited far nameless origin examined show ?thesis
      by (auto simp add: stuck_def batch_def keep distance_of_def dest: connections_member(1))
  next
    case (Some v)
    show ?thesis
    proof (cases "currentEdge ?s")
      case None
      show ?thesis
      proof (cases "edgesLeft ?s")
        case Nil
        with unvisited Some None have
          "next_step d = (False, batch (\<lambda>s. s\<lparr> currentVertex := None \<rparr>) d)"
          by (simp add: next_step_def Let_def)
        with unvisited far nameless origin None show ?thesis
          by (simp add: stuck_def batch_def distance_of_def)
      next
        case (Cons target rest)
        with unvisited Some None have
          "next_step d =
             (False, batch (\<lambda>s. s\<lparr> currentEdge := Some target, edgesLeft := rest \<rparr>) d)"
          by (simp add: next_step_def Let_def)
        with unvisited far nameless origin waiting Some Cons show ?thesis
          by (simp add: stuck_def batch_def distance_of_def)
      qed
    next
      case (Some e)
      with examined have from_e: "from_id e = []" by simp
      from unvisited \<open>currentVertex ?s = Some v\<close> Some from_e have
        "next_step d = (False, batch (\<lambda>s. s\<lparr> currentEdge := None \<rparr>) d)"
        by (simp add: next_step_def Let_def no_relax)
      with unvisited far nameless origin waiting show ?thesis
        by (simp add: stuck_def batch_def distance_of_def)
    qed
  qed
qed

lemma stuck_run: "stuck d \<Longrightarrow> stuck (run n d)"
  by (induction n) (simp_all add: run_0 run_Suc stuck_step)

lemma stuck_never: "stuck d \<Longrightarrow> \<not> fst (next_step (run n d))"
  by (rule stuck_step) (rule stuck_run)

subsection \<open>The history\<close>

lemma next_step_commit:
  "snd (next_step d) = d
   \<or> history (snd (next_step d)) = clone (state (snd (next_step d))) # history d"
  by (simp add: next_step_def Let_def batch_def split: option.split list.split)

lemma run_history:
  "run n d = d \<or> (\<exists>hs. hs \<noteq> [] \<and> length hs \<le> n \<and> history (run n d) = hs @ history d)"
proof (induction n)
  case 0
  show ?case by (simp add: run_0)
next
  case (Suc n)
  from next_step_commit [of "run n d"] show ?case
  proof
    assume "snd (next_step (run n d)) = run n d"
    then have "run (Suc n) d = run n d" by (simp add: run_Suc)
    with Suc show ?thesis by (auto intro: le_SucI)
  next
    assume "history (snd (next_step (run n d)))
              = clone (state (snd (next_step (run n d)))) # history (run n d)"
    then have grown: "history (run (Suc n) d) = clone (state (run (Suc n) d)) # history (run n d)"
      by (simp add: run_Suc)
    from Suc show ?thesis
    proof
      assume "run n d = d"
      with grown have "history (run (Suc n) d) = [clone (state (run (Suc n) d))] @ history d"
        by simp
      then show ?thesis by (intro disjI2 exI [of _ "[clone (state (run (Suc n) d))]"]) simp
    next
      assume "\<exists>hs. hs \<noteq> [] \<and> length hs \<le> n \<and> history (run n d) = hs @ history d"
      then obtain hs where "hs \<noteq> []" "length hs \<le> n" "history (run n d) = hs @ history d"
        by blast
      with grown show ?thesis
        by (intro disjI2 exI [of _ "clone (state (run (Suc n) d)) # hs"]) simp
    qed
  qed
qed

lemma normalize_distances_idem:
  "normalize_distances (normalize_distances ds) = normalize_distances ds"
  by (rule ext) (simp add: normalize_distances_def)

lemma normalize_distances_no_null: "normalize_distances ds key \<noteq> Some Null"
  by (simp add: normalize_distances_def)

lemma prev_pop:
  "history d = c # b # rest \<Longrightarrow>
     prev d = d\<lparr> state := b\<lparr> distances := normalize_distances (distances b) \<rparr>,
                 history := b # rest \<rparr>"
  by (simp add: prev_def undo_def)

lemma prev_bottom:
  assumes "history d = [b]"
    and "distances (state d) = normalize_distances ds"
  shows "prev d = d"
  using assms by (simp add: prev_def undo_def normalize_distances_idem)

lemma prev_bottom_funpow:
  assumes "history d = [b]"
    and "distances (state d) = normalize_distances ds"
  shows "(prev ^^ k) d = d"
  using assms by (induction k) (simp_all add: prev_bottom)

lemma prev_funpow:
  assumes "history d = hs @ [b]" and "hs \<noteq> []" and "length hs \<le> k"
  shows "(prev ^^ k) d
           = d\<lparr> state := b\<lparr> distances := normalize_distances (distances b) \<rparr>, history := [b] \<rparr>"
  using assms
proof (induction k arbitrary: d hs)
  case 0
  then show ?case by simp
next
  case (Suc k)
  from Suc.prems(2) obtain c hs' where hs: "hs = c # hs'"
    by (cases hs) auto
  have unroll: "(prev ^^ Suc k) d = (prev ^^ k) (prev d)"
    by (simp add: funpow_swap1)
  show ?case
  proof (cases hs')
    case Nil
    with hs Suc.prems(1) have "history d = c # b # []" by simp
    then have popped: "prev d = d\<lparr> state := b\<lparr> distances := normalize_distances (distances b) \<rparr>,
                                  history := [b] \<rparr>"
      by (rule prev_pop)
    have "(prev ^^ k) (prev d) = prev d"
      unfolding popped by (rule prev_bottom_funpow [where b = b and ds = "distances b"]) simp_all
    with unroll popped show ?thesis by simp
  next
    case (Cons b' hs'')
    with hs Suc.prems(1) have "history d = c # b' # (hs'' @ [b])" by simp
    then have popped: "prev d = d\<lparr> state := b'\<lparr> distances := normalize_distances (distances b') \<rparr>,
                                  history := b' # (hs'' @ [b]) \<rparr>"
      by (rule prev_pop)
    have "(prev ^^ k) (prev d)
            = (prev d)\<lparr> state := b\<lparr> distances := normalize_distances (distances b) \<rparr>,
                        history := [b] \<rparr>"
    proof (rule Suc.IH [where hs = hs'])
      show "history (prev d) = hs' @ [b]" unfolding popped using Cons by simp
      show "hs' \<noteq> []" using Cons by simp
      show "length hs' \<le> k" using Suc.prems(3) hs by simp
    qed
    with unroll show ?thesis unfolding popped by simp
  qed
qed

lemma normalize_clone_init:
  "normalize_distances (distances (clone (initDijkstra g a))) = distances (initDijkstra g a)"
  by (rule ext) (simp add: normalize_distances_def clone_def initDijkstra_def initDistances_apply)

lemma restore_init:
  "(clone (initDijkstra g a))\<lparr> distances :=
      normalize_distances (distances (clone (initDijkstra g a))) \<rparr> = initDijkstra g a"
  unfolding normalize_clone_init by (simp add: clone_def)

lemma normalize_init:
  "normalize_distances (distances (initDijkstra g a)) = distances (initDijkstra g a)"
  by (rule ext) (simp add: normalize_distances_def initDijkstra_def initDistances_apply)

lemma prev_init: "prev (useDijkstra g a b) = useDijkstra g a b"
  by (simp add: prev_def undo_def useDijkstra_def normalize_init)

section \<open>The example scenario\<close>

text \<open>
  Claim C2. On the graph with the edges A\<rightarrow>B (2), A\<rightarrow>C (1), B\<rightarrow>C (3), B\<rightarrow>D (2), C\<rightarrow>D (8),
  C\<rightarrow>E (3), start A and end D, the calls of \<^verbatim>\<open>next()\<close> from the initial snapshot return
  false nineteen times and true at the twentieth call. In the snapshot after that call the
  distances are A = 0, B = 2, C = 1, D = 4, E = 4, the predecessors are B\<leftarrow>A, C\<leftarrow>A, D\<leftarrow>B,
  E\<leftarrow>C, the entry of A in \<open>previous\<close> is \<^verbatim>\<open>null\<close>, and \<open>isDone\<close> is set.
\<close>

theorem example_scenario:
  "map (\<lambda>n. fst (next_step (run n (useDijkstra example_graph ''A'' ''D'')))) [0..<20]
     = replicate 19 False @ [True]
   \<and> map (distances (state (run 20 (useDijkstra example_graph ''A'' ''D''))))
         [''A'', ''B'', ''C'', ''D'', ''E'']
     = [Some (Num (Fin 0)), Some (Num (Fin 2)), Some (Num (Fin 1)), Some (Num (Fin 4)),
        Some (Num (Fin 4))]
   \<and> map (previous (state (run 20 (useDijkstra example_graph ''A'' ''D''))))
         [''A'', ''B'', ''C'', ''D'', ''E'']
     = [Some None, Some (Some ''A''), Some (Some ''A''), Some (Some ''B''), Some (Some ''C'')]
   \<and> isDone (state (run 20 (useDijkstra example_graph ''A'' ''D'')))"
proof -
  let ?d = "useDijkstra example_graph ''A'' ''D''"
  have last_false: "\<not> fst (next_step (run 18 ?d))"
    by (simp add: unfold_run example_graph_def)
  have "map (\<lambda>n. fst (next_step (run n ?d))) [0..<19] = replicate 19 False"
  proof (rule replicate_eqI)
    show "length (map (\<lambda>n. fst (next_step (run n ?d))) [0..<19]) = 19" by simp
  next
    fix y assume "y \<in> set (map (\<lambda>n. fst (next_step (run n ?d))) [0..<19])"
    then have "y \<in> (\<lambda>n. fst (next_step (run n ?d))) ` {0..<19}" by simp
    then obtain k where k: "k \<in> {0..<19}" and y: "y = fst (next_step (run k ?d))"
      by (rule imageE)
    from k have "k \<le> 18" by simp
    from not_done_before [OF last_false this] y show "y = False" by simp
  qed
  moreover have "fst (next_step (run 19 ?d))"
    by (simp add: unfold_run example_graph_def)
  moreover have "[0..<20] = [0..<19] @ [19]"
    using upt_Suc_append [of 0 19] by simp
  ultimately have calls:
    "map (\<lambda>n. fst (next_step (run n ?d))) [0..<20] = replicate 19 False @ [True]"
    by simp
  have dists: "map (distances (state (run 20 ?d))) [''A'', ''B'', ''C'', ''D'', ''E'']
     = [Some (Num (Fin 0)), Some (Num (Fin 2)), Some (Num (Fin 1)), Some (Num (Fin 4)),
        Some (Num (Fin 4))]"
    by (simp add: unfold_run example_graph_def)
  have prevs: "map (previous (state (run 20 ?d))) [''A'', ''B'', ''C'', ''D'', ''E'']
     = [Some None, Some (Some ''A''), Some (Some ''A''), Some (Some ''B''), Some (Some ''C'')]"
    by (simp add: unfold_run example_graph_def)
  have fin: "isDone (state (run 20 ?d))"
    by (simp add: unfold_run example_graph_def)
  from calls dists prevs fin show ?thesis by blast
qed

section \<open>The phases of the state machine\<close>

text \<open>
  Claim C3, as stated, fails: when the end vertex is taken as frontier while it still has
  candidate edges, the next call ends the search, clears \<open>currentVertex\<close> and keeps
  \<open>edgesLeft\<close>. With the graph A\<rightarrow>B and start = end = A this is the state after two calls.
\<close>

theorem phase_claim_counterexample:
  "\<not> (edgesLeft (state (run 2 (useDijkstra two_linked ''A'' ''A''))) \<noteq> []
       \<longrightarrow> currentVertex (state (run 2 (useDijkstra two_linked ''A'' ''A''))) \<noteq> None)"
  by (simp add: unfold_run two_linked_def)

text \<open>
  Claim C3, amended. In every state reached from the initial snapshot by calls of
  \<^verbatim>\<open>next()\<close>, \<open>currentEdge\<close> is set only while \<open>currentVertex\<close> is set, and
  \<open>edgesLeft\<close> is non-empty only while \<open>currentVertex\<close> is set or the search is done.
\<close>

theorem phase_invariant:
  "(currentEdge (state (run n (useDijkstra g a b))) \<noteq> None
      \<longrightarrow> currentVertex (state (run n (useDijkstra g a b))) \<noteq> None)
   \<and> (edgesLeft (state (run n (useDijkstra g a b))) \<noteq> []
      \<longrightarrow> currentVertex (state (run n (useDijkstra g a b))) \<noteq> None
          \<or> isDone (state (run n (useDijkstra g a b))))"
  using phase_inv_run [of n g a b] by (auto simp add: phase_inv_def)

text \<open>After two calls on the example graph an edge is under examination and another one
  is waiting.\<close>

theorem phase_invariant_witness:
  "currentEdge (state (run 2 (useDijkstra example_graph ''A'' ''D''))) \<noteq> None
   \<and> edgesLeft (state (run 2 (useDijkstra example_graph ''A'' ''D''))) \<noteq> []
   \<and> currentVertex (state (run 2 (useDijkstra example_graph ''A'' ''D''))) \<noteq> None"
proof -
  have examined: "currentEdge (state (run 2 (useDijkstra example_graph ''A'' ''D''))) \<noteq> None"
    by (simp add: unfold_run example_graph_def)
  have waiting: "edgesLeft (state (run 2 (useDijkstra example_graph ''A'' ''D''))) \<noteq> []"
    by (simp add: unfold_run example_graph_def)
  from phase_invariant [of 2 example_graph "''A''" "''D''"] examined waiting
  show ?thesis by blast
qed

section \<open>Distances never increase\<close>

text \<open>
  Claim C5. For every graph, start, end and vertex \<open>v\<close>, and every state reached from the
  initial snapshot by calls of \<^verbatim>\<open>next()\<close>, the distance of \<open>v\<close> after one more call is
  less than or equal to its distance before the call; hence so it is after any number
  \<open>k\<close> of further calls. Only the relax step changes the distance table: a call made
  while no edge is under examination leaves the whole table as it is. The distance of
  \<open>v\<close> is the recorded one, Infinity where the table records no number.
\<close>

theorem distances_never_increase:
  "num_le (distance_of (state (run (Suc n) (useDijkstra g a b))) v)
          (distance_of (state (run n (useDijkstra g a b))) v)
   \<and> num_le (distance_of (state (run (n + k) (useDijkstra g a b))) v)
            (distance_of (state (run n (useDijkstra g a b))) v)
   \<and> (currentEdge (state (run n (useDijkstra g a b))) = None
        \<longrightarrow> distances (state (run (Suc n) (useDijkstra g a b)))
              = distances (state (run n (useDijkstra g a b))))"
proof -
  let ?dist = "\<lambda>n. distance_of (state (run n (useDijkstra g a b))) v"
  have defined: "?dist n \<noteq> NaN" for n
    by (rule no_NaN_distance_of) (rule no_NaN_run)
  have one: "num_le (?dist (Suc n)) (?dist n)" for n
    using step_distance [of "run n (useDijkstra g a b)" v] defined [of n] defined [of "Suc n"]
    by (auto simp add: num_le_def run_Suc)
  have many: "num_le (?dist (n + k)) (?dist n)"
  proof (induction k)
    case 0
    from defined [of n] show ?case by (simp add: num_le_def)
  next
    case (Suc k)
    from one [of "n + k"] Suc show ?case
      by (simp add: num_le_trans)
  qed
  have frame: "currentEdge (state (run n (useDijkstra g a b))) = None
        \<longrightarrow> distances (state (run (Suc n) (useDijkstra g a b)))
              = distances (state (run n (useDijkstra g a b)))"
    unfolding run_Suc by (rule impI) (rule step_distances_kept)
  from one [of n] many frame show ?thesis by blast
qed

text \<open>On the example graph the second call takes an edge out of the queue and leaves
  the table alone; the third call relaxes A\<rightarrow>B, and the distance of B falls from Infinity
  to 2.\<close>

theorem distances_never_increase_witness:
  "currentEdge (state (run 1 (useDijkstra example_graph ''A'' ''D''))) = None
   \<and> distances (state (run 2 (useDijkstra example_graph ''A'' ''D'')))
       = distances (state (run 1 (useDijkstra example_graph ''A'' ''D'')))
   \<and> distance_of (state (run 2 (useDijkstra example_graph ''A'' ''D''))) ''B'' = PInf
   \<and> distance_of (state (run 3 (useDijkstra example_graph ''A'' ''D''))) ''B'' = Fin 2
   \<and> num_le (Fin 2) PInf"
proof -
  have idle: "currentEdge (state (run 1 (useDijkstra example_graph ''A'' ''D''))) = None"
    by (simp add: unfold_run example_graph_def)
  have two: "Suc 1 = 2" by simp
  from distances_never_increase [of 1 example_graph "''A''" "''D''"] idle
  have kept: "distances (state (run 2 (useDijkstra example_graph ''A'' ''D'')))
       = distances (state (run 1 (useDijkstra example_graph ''A'' ''D'')))"
    unfolding two by blast
  have before: "distance_of (state (run 2 (useDijkstra example_graph ''A'' ''D''))) ''B'' = PInf"
    by (simp add: unfold_run example_graph_def distance_of_def)
  have after: "distance_of (state (run (Suc 2) (useDijkstra example_graph ''A'' ''D''))) ''B'' = Fin 2"
    by (simp add: unfold_run example_graph_def distance_of_def)
  from distances_never_increase [of 2 example_graph "''A''" "''D''" "''B''"]
  have "num_le (Fin 2) PInf" unfolding before after by (rule conjunct1)
  with idle kept before after show ?thesis by (simp add: eval_nat_numeral)
qed

section \<open>The entries of the start vertex\<close>

text \<open>
  Claim C6 does not hold of the code: \<open>distances\<close> is a plain object, and for the start
  vertex \<^verbatim>\<open>__proto__\<close> the assignment \<^verbatim>\<open>distances[start] = 0\<close> stores nothing. In the
  graph with the two vertices \<^verbatim>\<open>__proto__\<close> and B and no edge (hence no self-loop), with
  start \<^verbatim>\<open>__proto__\<close> and end B, the start is a vertex of the graph, and in every state
  reached from the initial snapshot by calls of \<^verbatim>\<open>next()\<close> the table has no entry of
  its own for the start: \<^verbatim>\<open>distances[start]\<close> reads the prototype object, not 0. For
  every other start vertex the claim holds (lemma \<open>start_entries_ordinary\<close>).
\<close>

theorem start_distance_not_stored:
  "start (run n (useDijkstra proto_vertex ''__proto__'' ''B'')) = ''__proto__''
   \<and> ''__proto__'' \<in> set (object_keys (vertices proto_vertex))
   \<and> edges proto_vertex = []
   \<and> distances (state (run n (useDijkstra proto_vertex ''__proto__'' ''B''))) ''__proto__'' = None
   \<and> get_property (distances (state (run n (useDijkstra proto_vertex ''__proto__'' ''B''))))
         ''__proto__'' = Inherited"
proof -
  let ?d = "run n (useDijkstra proto_vertex ''__proto__'' ''B'')"
  have none: "distances (state ?d) ''__proto__'' = None"
    by (rule no_own_proto_run)
  then have "get_property (distances (state ?d)) ''__proto__'' = Inherited"
    by (simp add: get_property_def prototype_names_def)
  with none show ?thesis
    by (simp add: run_refs useDijkstra_def proto_vertex_def object_keys_def)
qed

section \<open>Calls after the end of the search\<close>

text \<open>
  Claim C8. In every state where the search has ended (\<open>isDone\<close> is set and the end vertex
  is not in \<open>unvisted\<close>), every further call of \<^verbatim>\<open>next()\<close> returns true and changes
  nothing, neither the snapshot nor the history: after any number \<open>n\<close> of calls the
  closure is the same, and the call that follows returns true and leaves it the same.
\<close>

theorem next_after_done:
  assumes "isDone (state d)" and "end_id d \<notin> set (unvisted (state d))"
  shows "run n d = d \<and> next_step (run n d) = (True, d)"
proof -
  from assms have once: "next_step d = (True, d)"
    by (simp add: next_step_def)
  then have "run n d = d"
    by (induction n) (simp_all add: run_0 run_Suc)
  with once show ?thesis by simp
qed

text \<open>With the graph A\<rightarrow>B and start = end = A the search has ended after two calls.\<close>

theorem next_after_done_witness:
  "isDone (state (run 2 (useDijkstra two_linked ''A'' ''A'')))
   \<and> end_id (run 2 (useDijkstra two_linked ''A'' ''A''))
       \<notin> set (unvisted (state (run 2 (useDijkstra two_linked ''A'' ''A''))))
   \<and> run 3 (run 2 (useDijkstra two_linked ''A'' ''A'')) = run 2 (useDijkstra two_linked ''A'' ''A'')
   \<and> next_step (run 3 (run 2 (useDijkstra two_linked ''A'' ''A'')))
       = (True, run 2 (useDijkstra two_linked ''A'' ''A''))"
proof -
  have ended: "isDone (state (run 2 (useDijkstra two_linked ''A'' ''A'')))"
    by (simp add: unfold_run two_linked_def)
  have out: "end_id (run 2 (useDijkstra two_linked ''A'' ''A''))
                \<notin> set (unvisted (state (run 2 (useDijkstra two_linked ''A'' ''A''))))"
    by (simp add: unfold_run two_linked_def)
  from next_after_done [OF ended out, of 3] ended out show ?thesis by blast
qed

section \<open>The frame of the relax step\<close>

text \<open>
  Claim C10. When \<^verbatim>\<open>next()\<close> takes the relax branch (the end vertex is unvisited,
  \<open>currentVertex\<close> is set and \<open>currentEdge\<close> is an edge \<open>e\<close>), it returns false and clears
  \<open>currentEdge\<close>; \<open>unvisted\<close>, \<open>edgesLeft\<close>, \<open>currentVertex\<close>, \<open>isDone\<close>, the graph, start
  and end are unchanged, and so is every entry of \<open>distances\<close> and \<open>previous\<close> at a key
  other than the target of \<open>e\<close>, whether the relaxation improves the distance or not.
\<close>

theorem relax_frame:
  assumes "end_id d \<in> set (unvisted (state d))"
    and "currentVertex (state d) \<noteq> None"
    and "currentEdge (state d) = Some e"
  shows "fst (next_step d) = False
    \<and> currentEdge (state (snd (next_step d))) = None
    \<and> unvisted (state (snd (next_step d))) = unvisted (state d)
    \<and> edgesLeft (state (snd (next_step d))) = edgesLeft (state d)
    \<and> currentVertex (state (snd (next_step d))) = currentVertex (state d)
    \<and> isDone (state (snd (next_step d))) = isDone (state d)
    \<and> graph (snd (next_step d)) = graph d
    \<and> start (snd (next_step d)) = start d
    \<and> end_id (snd (next_step d)) = end_id d
    \<and> (\<forall>v. v \<noteq> to_id e \<longrightarrow>
          distances (state (snd (next_step d))) v = distances (state d) v
          \<and> previous (state (snd (next_step d))) v = previous (state d) v)"
  using assms by (simp add: next_step_def batch_def Let_def obj_set_other)

text \<open>After two calls on the example graph the edge A\<rightarrow>B is under examination; the third
  call changes the entries of B and leaves those of C as they are.\<close>

theorem relax_frame_witness:
  "end_id (run 2 (useDijkstra example_graph ''A'' ''D''))
     \<in> set (unvisted (state (run 2 (useDijkstra example_graph ''A'' ''D''))))
   \<and> currentVertex (state (run 2 (useDijkstra example_graph ''A'' ''D''))) \<noteq> None
   \<and> currentEdge (state (run 2 (useDijkstra example_graph ''A'' ''D'')))
       = Some \<lparr>from_id = ''A'', to_id = ''B'', cost = Fin 2\<rparr>
   \<and> currentEdge (state (run 3 (useDijkstra example_graph ''A'' ''D''))) = None
   \<and> distances (state (run 3 (useDijkstra example_graph ''A'' ''D''))) ''C''
       = distances (state (run 2 (useDijkstra example_graph ''A'' ''D''))) ''C''"
proof -
  let ?d = "run 2 (useDijkstra example_graph ''A'' ''D'')"
  have unvisited: "end_id ?d \<in> set (unvisted (state ?d))"
    by (simp add: unfold_run example_graph_def)
  have vertex: "currentVertex (state ?d) \<noteq> None"
    by (simp add: unfold_run example_graph_def)
  have edge: "currentEdge (state ?d) = Some \<lparr>from_id = ''A'', to_id = ''B'', cost = Fin 2\<rparr>"
    by (simp add: unfold_run example_graph_def)
  have third: "run 3 (useDijkstra example_graph ''A'' ''D'') = snd (next_step ?d)"
    by (simp add: eval_nat_numeral run_Suc)
  from relax_frame [OF unvisited vertex edge] unvisited vertex edge
  show ?thesis unfolding third by simp
qed

section \<open>The choice of the frontier\<close>

text \<open>
  Claim C4, as stated, fails: it holds only while some unvisited vertex has a distance
  below Infinity. With two vertices A, B and no edge, start A and end B, the third call
  is in the selection phase with B unvisited; it sets \<open>currentVertex\<close> to the empty
  identifier, which is not an unvisited vertex, and removes nothing from \<open>unvisted\<close>.
\<close>

theorem frontier_claim_counterexample:
  "currentVertex (state (run 2 (useDijkstra two_apart ''A'' ''B''))) = None
   \<and> unvisted (state (run 2 (useDijkstra two_apart ''A'' ''B''))) = [''B'']
   \<and> end_id (run 2 (useDijkstra two_apart ''A'' ''B'')) = ''B''
   \<and> currentVertex (state (run 3 (useDijkstra two_apart ''A'' ''B''))) = Some []
   \<and> unvisted (state (run 3 (useDijkstra two_apart ''A'' ''B''))) = [''B'']"
  by (simp add: unfold_run two_apart_def)

text \<open>
  Claim C4, amended. When \<^verbatim>\<open>next()\<close> runs in the selection phase (\<open>currentVertex\<close> is
  \<^verbatim>\<open>null\<close> and the end vertex is unvisited) and some unvisited vertex has a distance
  below Infinity, it returns false and chooses the unvisited vertex \<open>m\<close> of minimum
  distance, the first such vertex in \<open>unvisted\<close>; it sets \<open>currentVertex\<close> to \<open>m\<close>,
  \<open>edgesLeft\<close> to the edges touching \<open>m\<close> (reversed when \<open>m\<close> is their \<open>to\<close>, kept when \<open>m\<close>
  is their \<open>from\<close>, and only those whose far endpoint is in \<open>unvisted\<close> as it is before
  the removal), removes \<open>m\<close> from \<open>unvisted\<close>, and changes nothing else of the snapshot.
\<close>

theorem select_frontier:
  assumes "currentVertex (state d) = None"
    and "end_id d \<in> set (unvisted (state d))"
    and "\<exists>u \<in> set (unvisted (state d)). num_less (distance_of (state d) u) PInf"
  shows "\<exists>m. first_minimum (state d) m
           \<and> next_step d =
               (False, batch (\<lambda>s. s\<lparr> currentVertex := Some m,
                                      edgesLeft := spec_candidate_edges m (unvisted (state d))
                                                     (edges (graph d)),
                                      unvisted := filter (\<lambda>u. u \<noteq> m) (unvisted s) \<rparr>) d)"
proof -
  let ?ds = "distances (state d)" and ?unv = "unvisted (state d)"
  from assms(3) have "\<exists>u \<in> set ?unv. num_less (recorded (?ds u)) PInf"
    by (simp add: distance_of_def)
  from minimal_loop_first [OF this, of "[]"] obtain i where i: "i < length ?unv"
    and res: "minimal_loop ?ds ?unv ([], PInf) = (?unv ! i, recorded (?ds (?unv ! i)))"
    and first: "\<forall>j < i. recorded (?ds (?unv ! j)) \<noteq> recorded (?ds (?unv ! i))"
    and least: "\<forall>u \<in> set ?unv. \<not> num_less (recorded (?ds u)) (recorded (?ds (?unv ! i)))"
    by blast
  from i first least have "first_minimum (state d) (?unv ! i)"
    unfolding first_minimum_def distance_of_def by blast
  moreover from assms(1,2) res
  have "next_step d =
          (False, batch (\<lambda>s. s\<lparr> currentVertex := Some (?unv ! i),
                                 edgesLeft := spec_candidate_edges (?unv ! i) ?unv (edges (graph d)),
                                 unvisted := filter (\<lambda>u. u \<noteq> ?unv ! i) (unvisted s) \<rparr>) d)"
    by (simp add: next_step_def Let_def connections_spec)
  ultimately show ?thesis by blast
qed

text \<open>The first call on the example graph is such a selection.\<close>

theorem select_frontier_witness:
  "currentVertex (state (useDijkstra example_graph ''A'' ''D'')) = None
   \<and> end_id (useDijkstra example_graph ''A'' ''D'')
       \<in> set (unvisted (state (useDijkstra example_graph ''A'' ''D'')))
   \<and> num_less (distance_of (state (useDijkstra example_graph ''A'' ''D'')) ''A'') PInf
   \<and> (\<exists>m. first_minimum (state (useDijkstra example_graph ''A'' ''D'')) m
         \<and> next_step (useDijkstra example_graph ''A'' ''D'') =
             (False, batch (\<lambda>s. s\<lparr> currentVertex := Some m,
                 edgesLeft := spec_candidate_edges m
                   (unvisted (state (useDijkstra example_graph ''A'' ''D'')))
                   (edges (graph (useDijkstra example_graph ''A'' ''D''))),
                 unvisted := filter (\<lambda>u. u \<noteq> m) (unvisted s) \<rparr>)
               (useDijkstra example_graph ''A'' ''D'')))"
proof -
  let ?d = "useDijkstra example_graph ''A'' ''D''"
  have phase: "currentVertex (state ?d) = None"
    by (simp add: useDijkstra_def initDijkstra_def)
  have unvisited: "end_id ?d \<in> set (unvisted (state ?d))"
    by (simp add: useDijkstra_def initDijkstra_def object_keys_def example_graph_def)
  have near: "num_less (distance_of (state ?d) ''A'') PInf"
    by (simp add: useDijkstra_def initDijkstra_def initDistances_apply distance_of_def)
  have "''A'' \<in> set (unvisted (state ?d))"
    by (simp add: useDijkstra_def initDijkstra_def object_keys_def example_graph_def)
  with near have some: "\<exists>u \<in> set (unvisted (state ?d)). num_less (distance_of (state ?d) u) PInf"
    by blast
  from select_frontier [OF phase unvisited some] phase unvisited near
  show ?thesis by blast
qed

section \<open>A selection without a reachable vertex\<close>




section \<open>An end vertex that cannot be reached\<close>

text \<open>
  Claim C1 does not hold of the code: \<^verbatim>\<open>next()\<close> has no test for an exhausted search.
  With two vertices A, B and no edge, start A and end B, no call of \<^verbatim>\<open>next()\<close> ever
  returns true and \<open>isDone\<close> is never set: after A is finalized the selection alternates
  between the empty identifier and \<^verbatim>\<open>null\<close> for ever.
\<close>

theorem unreachable_end_never_done:
  "\<not> fst (next_step (run n (useDijkstra two_apart ''A'' ''B'')))
   \<and> \<not> isDone (state (run n (useDijkstra two_apart ''A'' ''B'')))"
proof -
  let ?d = "run 2 (useDijkstra two_apart ''A'' ''B'')"
  have "stuck ?d"
    by (simp add: stuck_def distance_of_def unfold_run two_apart_def)
  then have "\<not> fst (next_step (run n ?d))"
    by (rule stuck_never)
  then have later: "\<not> fst (next_step (run (n + 2) (useDijkstra two_apart ''A'' ''B'')))"
    unfolding run_add .
  have never: "\<not> fst (next_step (run n (useDijkstra two_apart ''A'' ''B'')))"
    by (rule not_done_before [OF later]) simp
  with done_run [of n two_apart "''A''" "''B''"]
  have "\<not> isDone (state (run n (useDijkstra two_apart ''A'' ''B'')))"
    by (auto simp add: fst_next_step)
  with never show ?thesis by simp
qed

section \<open>Undo\<close>

text \<open>
  Claim C7. After \<open>k\<close> calls of \<^verbatim>\<open>next()\<close> from the initial snapshot, \<open>k\<close> calls of
  \<^verbatim>\<open>prev()\<close> give back the initial closure: the initial snapshot field for field, and
  the initial history. A call of \<^verbatim>\<open>prev()\<close> at the initial snapshot changes nothing.
  In any closure \<open>d\<close>, \<^verbatim>\<open>prev()\<close> leaves the snapshot that the undo restores, with every
  distance entry that is \<^verbatim>\<open>null\<close> turned into Infinity and every other entry and field
  as restored, so that no distance entry is \<^verbatim>\<open>null\<close> afterwards. The undo restores the
  record below the current one and drops the current one; with no record below, the
  snapshot stays, normalized in the same way.
\<close>

theorem undo_round_trip:
  "(prev ^^ k) (run k (useDijkstra g a b)) = useDijkstra g a b
   \<and> prev (useDijkstra g a b) = useDijkstra g a b
   \<and> distances (state (prev d)) key
       = (if distances (state (undo d)) key = Some Null then Some (Num PInf)
          else distances (state (undo d)) key)
   \<and> distances (state (prev d)) key \<noteq> Some Null
   \<and> (state (prev d))\<lparr> distances := distances (state (undo d)) \<rparr> = state (undo d)
   \<and> (history d = cur # below # rest
        \<longrightarrow> prev d = d\<lparr> state := below\<lparr> distances := normalize_distances (distances below) \<rparr>,
                          history := below # rest \<rparr>)
   \<and> (history d = [cur]
        \<longrightarrow> prev d = d\<lparr> state := (state d)\<lparr> distances :=
                            normalize_distances (distances (state d)) \<rparr> \<rparr>)"
proof (intro conjI impI)
  let ?d0 = "useDijkstra g a b"
  have bottom: "history ?d0 = [clone (initDijkstra g a)]"
    by (simp add: useDijkstra_def)
  from run_history [of k ?d0] show "(prev ^^ k) (run k ?d0) = ?d0"
  proof
    assume "run k ?d0 = ?d0"
    moreover have "(prev ^^ k) ?d0 = ?d0"
      by (induction k) (simp_all add: prev_init)
    ultimately show ?thesis by simp
  next
    assume "\<exists>hs. hs \<noteq> [] \<and> length hs \<le> k \<and> history (run k ?d0) = hs @ history ?d0"
    then obtain hs where hs: "hs \<noteq> []" "length hs \<le> k"
      and "history (run k ?d0) = hs @ history ?d0"
      by blast
    with bottom have "history (run k ?d0) = hs @ [clone (initDijkstra g a)]" by simp
    from prev_funpow [OF this hs]
    have "(prev ^^ k) (run k ?d0)
            = (run k ?d0)\<lparr> state := initDijkstra g a, history := [clone (initDijkstra g a)] \<rparr>"
      by (simp add: restore_init)
    also have "\<dots> = ?d0"
      using run_refs [of k ?d0] by (simp add: useDijkstra_def)
    finally show ?thesis .
  qed
  show "prev ?d0 = ?d0" by (rule prev_init)
  show "distances (state (prev d)) key
       = (if distances (state (undo d)) key = Some Null then Some (Num PInf)
          else distances (state (undo d)) key)"
    by (simp add: prev_def Let_def normalize_distances_def)
  show "distances (state (prev d)) key \<noteq> Some Null"
    by (simp add: prev_def Let_def normalize_distances_no_null)
  show "(state (prev d))\<lparr> distances := distances (state (undo d)) \<rparr> = state (undo d)"
    by (simp add: prev_def Let_def)
  show "prev d = d\<lparr> state := below\<lparr> distances := normalize_distances (distances below) \<rparr>,
                    history := below # rest \<rparr>"
    if "history d = cur # below # rest"
    using that by (rule prev_pop)
  show "prev d = d\<lparr> state := (state d)\<lparr> distances :=
                      normalize_distances (distances (state d)) \<rparr> \<rparr>"
    if "history d = [cur]"
    using that by (simp add: prev_def undo_def)
qed

text \<open>One call on the graph A\<rightarrow>B with start A and end B puts a second record on the
  history; one call of \<^verbatim>\<open>prev()\<close> drops it and gives back the initial closure, where a
  further call finds a single record.\<close>

theorem undo_round_trip_witness:
  "history (run 1 (useDijkstra two_linked ''A'' ''B''))
     = [clone (state (run 1 (useDijkstra two_linked ''A'' ''B''))),
        clone (initDijkstra two_linked ''A'')]
   \<and> prev (run 1 (useDijkstra two_linked ''A'' ''B''))
       = (run 1 (useDijkstra two_linked ''A'' ''B''))
           \<lparr> state := (clone (initDijkstra two_linked ''A''))
                \<lparr> distances := normalize_distances
                     (distances (clone (initDijkstra two_linked ''A''))) \<rparr>,
             history := [clone (initDijkstra two_linked ''A'')] \<rparr>
   \<and> prev (run 1 (useDijkstra two_linked ''A'' ''B'')) = useDijkstra two_linked ''A'' ''B''
   \<and> history (useDijkstra two_linked ''A'' ''B'') = [clone (initDijkstra two_linked ''A'')]
   \<and> prev (useDijkstra two_linked ''A'' ''B'')
       = (useDijkstra two_linked ''A'' ''B'')
           \<lparr> state := (state (useDijkstra two_linked ''A'' ''B''))
                \<lparr> distances := normalize_distances
                     (distances (state (useDijkstra two_linked ''A'' ''B''))) \<rparr> \<rparr>"
proof -
  let ?d0 = "useDijkstra two_linked ''A'' ''B''"
  have bottom: "history ?d0 = [clone (initDijkstra two_linked ''A'')]"
    by (simp add: useDijkstra_def)
  have "end_id ?d0 \<in> set (unvisted (state ?d0))"
    by (simp add: useDijkstra_def initDijkstra_def object_keys_def two_linked_def)
  moreover have "currentVertex (state ?d0) = None"
    by (simp add: useDijkstra_def initDijkstra_def)
  ultimately have "history (snd (next_step ?d0)) = clone (state (snd (next_step ?d0))) # history ?d0"
    by (simp add: next_step_def Let_def batch_def)
  with bottom have two: "history (run 1 ?d0)
     = [clone (state (run 1 ?d0)), clone (initDijkstra two_linked ''A'')]"
    by (simp add: run_def)
  note facts = undo_round_trip [of 1 two_linked "''A''" "''B''"]
  from facts [of "run 1 ?d0" _ "clone (state (run 1 ?d0))" "clone (initDijkstra two_linked ''A'')" "[]"] two
  have popped: "prev (run 1 ?d0)
       = (run 1 ?d0)\<lparr> state := (clone (initDijkstra two_linked ''A''))
                        \<lparr> distances := normalize_distances
                             (distances (clone (initDijkstra two_linked ''A''))) \<rparr>,
                     history := [clone (initDijkstra two_linked ''A'')] \<rparr>"
    by blast
  from facts have returned: "prev (run 1 ?d0) = ?d0"
    by simp
  from facts [of "?d0" _ "clone (initDijkstra two_linked ''A'')"] bottom
  have still: "prev ?d0 = ?d0\<lparr> state := (state ?d0)\<lparr> distances :=
                      normalize_distances (distances (state ?d0)) \<rparr> \<rparr>"
    by blast
  from two popped returned bottom still show ?thesis by blast
qed

end
